theory Spec2Isabelle
  imports Main "HOL-Library.FSet"
begin

section \<open>JavaScript values\<close>

text \<open>
  The development follows the variant of \<^verbatim>\<open>IncidentList\<close> in \<^verbatim>\<open>src/unnamed/part_002\<close>, the
  one that normalizes the payload; line numbers refer to that file. The earlier variant
  in \<^verbatim>\<open>src/unnamed/part_000\<close> has the same \<^verbatim>\<open>toggleIncidentSelection\<close> and a
  \<^verbatim>\<open>toggleSelectAll\<close> with a shorter test, which is modelled beside the other.

  The component receives \<^verbatim>\<open>response.data\<close>, the parsed JSON body of the
  backend's answer, and reads it with property accesses, \<^verbatim>\<open>||\<close> and object spread.
  A value is one of the JavaScript values JSON can produce, plus \<^verbatim>\<open>undefined\<close>, the result
  of reading a property that is not there. An object is the list of its own enumerable
  properties in enumeration order (the order of \<^verbatim>\<open>Object.keys\<close>), one entry per key.
  Numbers are integers here (the fractional part of a double plays no role in what follows),
  and a string is the list of its characters (a character beyond ASCII is spelled by the
  bytes of its UTF-8 encoding, as in the source file).
\<close>

datatype jsval =
    JUndefined
  | JNull
  | JBool bool
  | JNum int
  | JStr string
  | JArr "jsval list"
  | JObj "(string \<times> jsval) list"

type_synonym obj = "(string \<times> jsval) list"

text \<open>\<^verbatim>\<open>ToBoolean\<close>: what \<^verbatim>\<open>||\<close>, \<^verbatim>\<open>&&\<close> and \<^verbatim>\<open>!\<close> test.\<close>

fun truthy :: "jsval \<Rightarrow> bool" where
  "truthy JUndefined = False"
| "truthy JNull = False"
| "truthy (JBool b) = b"
| "truthy (JNum n) = (n \<noteq> 0)"
| "truthy (JStr s) = (s \<noteq> [])"
| "truthy (JArr xs) = True"
| "truthy (JObj ps) = True"

text \<open>\<^verbatim>\<open>a || b\<close>: the left operand when it is truthy, the right one otherwise.\<close>

definition js_or :: "jsval \<Rightarrow> jsval \<Rightarrow> jsval" where
  "js_or a b = (if truthy a then a else b)"

text \<open>\<^verbatim>\<open>v == null\<close>, true of \<^verbatim>\<open>null\<close> and \<^verbatim>\<open>undefined\<close>; reading a property of such a value
  throws a \<^verbatim>\<open>TypeError\<close>.\<close>

fun nullish :: "jsval \<Rightarrow> bool" where
  "nullish JUndefined = True"
| "nullish JNull = True"
| "nullish v = False"

fun isArray :: "jsval \<Rightarrow> bool" where
  "isArray (JArr xs) = True"
| "isArray v = False"

fun isString :: "jsval \<Rightarrow> bool" where
  "isString (JStr s) = True"
| "isString v = False"

text \<open>Reading an own property of an object: \<^verbatim>\<open>undefined\<close> when the key is absent.\<close>

definition lookup :: "obj \<Rightarrow> string \<Rightarrow> jsval" where
  "lookup ps k = (case map_of ps k of None \<Rightarrow> JUndefined | Some v \<Rightarrow> v)"

text \<open>
  \<^verbatim>\<open>v.k\<close> for a value that is neither \<^verbatim>\<open>null\<close> nor \<^verbatim>\<open>undefined\<close>, and for the keys this
  program reads (\<^verbatim>\<open>incidents\<close>, \<^verbatim>\<open>data\<close>, \<^verbatim>\<open>results\<close>, \<^verbatim>\<open>id\<close>, \<^verbatim>\<open>timestamp\<close>, ...): none of them
  is defined on a number, a boolean, a string or an array, nor inherited by an object.
\<close>

fun field :: "jsval \<Rightarrow> string \<Rightarrow> jsval" where
  "field (JObj ps) k = lookup ps k"
| "field v k = JUndefined"

text \<open>The decimal spelling of an array index, the key under which an element is stored.\<close>

definition digit_char :: "nat \<Rightarrow> char" where
  "digit_char n = ''0123456789'' ! (n mod 10)"

function show_nat :: "nat \<Rightarrow> string" where
  "show_nat n =
     (if n < 10 then [digit_char n]
      else show_nat (n div 10) @ [digit_char (n mod 10)])"
  by pat_completeness auto
termination
  by (relation "measure id") auto

declare show_nat.simps [simp del]

fun index_from :: "nat \<Rightarrow> jsval list \<Rightarrow> obj" where
  "index_from i [] = []"
| "index_from i (x # xs) = (show_nat i, x) # index_from (Suc i) xs"

text \<open>
  The own enumerable properties that \<^verbatim>\<open>Object.values\<close> and object spread enumerate: the
  properties of an object, the elements of an array and the characters of a string under
  their indices, nothing for \<^verbatim>\<open>null\<close>, \<^verbatim>\<open>undefined\<close>, numbers and booleans.
\<close>

fun own_props :: "jsval \<Rightarrow> obj" where
  "own_props (JObj ps) = ps"
| "own_props (JArr xs) = index_from 0 xs"
| "own_props (JStr s) = index_from 0 (map (\<lambda>c. JStr [c]) s)"
| "own_props v = []"

definition Object_values :: "jsval \<Rightarrow> jsval list" where
  "Object_values v = map snd (own_props v)"

text \<open>
  Defining a property in an object literal: an existing key keeps its place and takes the
  new value, a new key goes to the end. (The engine's rule that integer-like keys are
  enumerated first is not modelled: the keys of a record stand in the order of their
  insertion, and a record is read by key only.)
\<close>

fun set_prop :: "obj \<Rightarrow> string \<Rightarrow> jsval \<Rightarrow> obj" where
  "set_prop [] k v = [(k, v)]"
| "set_prop ((k', v') # ps) k v =
     (if k' = k then (k, v) # ps else (k', v') # set_prop ps k v)"

text \<open>\<^verbatim>\<open>{ ...base, ...src }\<close>: every own property of \<^verbatim>\<open>src\<close> is defined on the literal, in order.\<close>

definition spread :: "obj \<Rightarrow> obj \<Rightarrow> obj" where
  "spread base src = foldl (\<lambda>acc (k, v). set_prop acc k v) base src"

section \<open>The environment\<close>

text \<open>
  What the component takes from the engine rather than from its own code:
  \<^item> \<open>random_id i\<close>: the value of \<^verbatim>\<open>Math.random().toString(36).substr(2, 9)\<close> when it is
    evaluated for the entry at position \<open>i\<close> of a payload;
  \<^item> \<open>now_iso i\<close>: the value of \<^verbatim>\<open>new Date().toISOString()\<close> evaluated for that entry;
  \<^item> \<open>date_ms v\<close>: the time value of \<^verbatim>\<open>new Date(v)\<close> in milliseconds, \<open>None\<close> for an
    invalid date (time value \<^verbatim>\<open>NaN\<close>);
  \<^item> \<open>locale_compare\<close>: \<^verbatim>\<open>String.prototype.localeCompare\<close>;
  \<^item> \<open>js_less a b\<close>: the relational comparison \<^verbatim>\<open>a < b\<close>;
  \<^item> \<open>type_error_message\<close>: the \<^verbatim>\<open>message\<close> of the \<^verbatim>\<open>TypeError\<close> the engine throws when a
    property of \<^verbatim>\<open>null\<close> or \<^verbatim>\<open>undefined\<close> is read.

  An engine fixes the random ids and the clock readings of a run: two normalizations are
  compared under the same engine, that is, for the same draws.
\<close>

record engine =
  random_id :: "nat \<Rightarrow> string"
  now_iso :: "nat \<Rightarrow> string"
  date_ms :: "jsval \<Rightarrow> int option"
  locale_compare :: "string \<Rightarrow> string \<Rightarrow> int"
  js_less :: "jsval \<Rightarrow> jsval \<Rightarrow> bool"
  type_error_message :: string

section \<open>Normalization (\<^verbatim>\<open>fetchIncidents\<close>, the \<^verbatim>\<open>try\<close> block)\<close>

datatype exn = TypeError

text \<open>
  Lines 26--46: the list of raw entries taken from the payload.
  \<^verbatim>\<open>
  if (Array.isArray(response.data)) incidentsData = response.data;
  else if (response.data.incidents && Array.isArray(response.data.incidents)) ...
  else if (response.data.data && Array.isArray(response.data.data)) ...
  else if (response.data.results && Array.isArray(response.data.results)) ...
  else { incidentsData = Object.values(response.data); ... }
  \<close>
  The second test reads a property of the payload, which throws when the payload is
  \<^verbatim>\<open>null\<close>. \<^verbatim>\<open>Object.values\<close> always returns an array, so the check after it never fires.
\<close>

definition wrapped :: "jsval \<Rightarrow> string \<Rightarrow> bool" where
  "wrapped d k = (truthy (field d k) \<and> isArray (field d k))"

fun elements :: "jsval \<Rightarrow> jsval list" where
  "elements (JArr xs) = xs"
| "elements v = []"

definition incidentsData :: "jsval \<Rightarrow> exn + jsval list" where
  "incidentsData d =
     (if isArray d then Inr (elements d)
      else if nullish d then Inl TypeError
      else if wrapped d ''incidents'' then Inr (elements (field d ''incidents''))
      else if wrapped d ''data'' then Inr (elements (field d ''data''))
      else if wrapped d ''results'' then Inr (elements (field d ''results''))
      else Inr (Object_values d))"

text \<open>
  Lines 51--60, the function mapped over the entries. \<open>rnd\<close> and \<open>now\<close> are the values the
  two fallback expressions of \<^verbatim>\<open>id\<close> and \<^verbatim>\<open>timestamp\<close> have for this entry. The first property
  read throws for a \<^verbatim>\<open>null\<close> entry. The spread comes last in the literal, so a canonical key
  that the entry itself carries ends with the entry's own value.
\<close>

definition canonical :: "string \<Rightarrow> string \<Rightarrow> jsval \<Rightarrow> obj" where
  "canonical rnd now incident =
     [(''id'', js_or (js_or (field incident ''id'') (field incident ''_id'')) (JStr rnd)),
      (''timestamp'',
         js_or (js_or (js_or (field incident ''timestamp'') (field incident ''date''))
                  (field incident ''created_at'')) (JStr now)),
      (''incident_type'',
         js_or (js_or (js_or (field incident ''incident_type'') (field incident ''type''))
                  (field incident ''category'')) (JStr ''Unknown'')),
      (''user_id'',
         js_or (js_or (js_or (field incident ''user_id'') (field incident ''user''))
                  (field incident ''employee_id'')) (JStr ''N/A'')),
      (''platform'',
         js_or (js_or (js_or (field incident ''platform'') (field incident ''source''))
                  (field incident ''channel'')) (JStr ''Unknown'')),
      (''action'',
         js_or (js_or (field incident ''action'') (field incident ''response''))
           (JStr ''NOTIFY''))]"

definition formatIncident :: "string \<Rightarrow> string \<Rightarrow> jsval \<Rightarrow> exn + obj" where
  "formatIncident rnd now incident =
     (if nullish incident then Inl TypeError
      else Inr (spread (canonical rnd now incident) (own_props incident)))"

text \<open>\<^verbatim>\<open>incidentsData.map(...)\<close>: the first entry that throws aborts the whole map.\<close>

fun format_from :: "engine \<Rightarrow> nat \<Rightarrow> jsval list \<Rightarrow> exn + obj list" where
  "format_from eng i [] = Inr []"
| "format_from eng i (x # xs) =
     (case formatIncident (random_id eng i) (now_iso eng i) x of
        Inl e \<Rightarrow> Inl e
      | Inr r \<Rightarrow> (case format_from eng (Suc i) xs of
                   Inl e \<Rightarrow> Inl e
                 | Inr rs \<Rightarrow> Inr (r # rs)))"

definition formattedIncidents :: "engine \<Rightarrow> jsval list \<Rightarrow> exn + obj list" where
  "formattedIncidents eng xs = format_from eng 0 xs"

definition normalizePayload :: "engine \<Rightarrow> jsval \<Rightarrow> exn + obj list" where
  "normalizePayload eng d =
     (case incidentsData d of
        Inl e \<Rightarrow> Inl e
      | Inr xs \<Rightarrow> formattedIncidents eng xs)"

section \<open>The store: the component's state\<close>

datatype direction = Asc | Desc

text \<open>The keys \<^verbatim>\<open>handleSort\<close> is called with, by the three sortable column headers.\<close>

datatype sort_key = Timestamp | IncidentType | UserId

fun key_name :: "sort_key \<Rightarrow> string" where
  "key_name Timestamp = ''timestamp''"
| "key_name IncidentType = ''incident_type''"
| "key_name UserId = ''user_id''"

record sort_config =
  key :: sort_key
  direction :: direction

text \<open>
  The five \<^verbatim>\<open>useState\<close> cells. The list holds the records the last successful poll
  produced; \<open>error\<close> holds \<^verbatim>\<open>null\<close> or the message; the selection is a \<^verbatim>\<open>Set\<close> of ids, a finite
  set that compares primitive ids (numbers, strings) by value.
\<close>

record store =
  incidents :: "obj list"
  loading :: bool
  error :: jsval
  selectedIncidents :: "jsval fset"
  sortConfig :: sort_config

definition initial_store :: store where
  "initial_store =
     \<lparr>incidents = [], loading = True, error = JNull, selectedIncidents = {||},
      sortConfig = \<lparr>key = Timestamp, direction = Desc\<rparr>\<rparr>"

subsection \<open>\<^verbatim>\<open>fetchIncidents\<close>\<close>

text \<open>
  The outcome of \<^verbatim>\<open>await axios.get(...)\<close>: the promise resolves with \<^verbatim>\<open>response.data\<close>, or
  it rejects with an error \<^verbatim>\<open>err\<close>, of which the \<^verbatim>\<open>catch\<close> branch reads
  \<^verbatim>\<open>err.response?.data?.message\<close> and \<^verbatim>\<open>err.message\<close>.
\<close>

datatype http_result = Resolved jsval | Rejected jsval jsval

text \<open>The literal of line 66, in the bytes of the source file.\<close>

definition default_error_message :: string where
  "default_error_message =
     map char_of
       [208, 158, 209, 136, 208, 184, 208, 177, 208, 186, 208, 176, 32, 208, 183, 208, 176,
        208, 179, 209, 128, 209, 131, 208, 183, 208, 186, 208, 184, 32, 208, 180, 208, 176,
        208, 189, 208, 189, 209, 139, 209, 133 :: nat]"

text \<open>
  \<^verbatim>\<open>setError(err.response?.data?.message || err.message || '...')\<close>, then
  \<^verbatim>\<open>setLoading(false)\<close> from the \<^verbatim>\<open>finally\<close> block.
\<close>

definition catch_branch :: "jsval \<Rightarrow> jsval \<Rightarrow> store \<Rightarrow> store" where
  "catch_branch response_message message st =
     st\<lparr>error := js_or (js_or response_message message) (JStr default_error_message),
        loading := False\<rparr>"

text \<open>
  One run of \<^verbatim>\<open>fetchIncidents\<close>. A \<^verbatim>\<open>TypeError\<close> thrown while the payload is normalized is
  caught by the same \<^verbatim>\<open>catch\<close> as a rejected request; it has no \<^verbatim>\<open>response\<close>.
\<close>

definition fetchIncidents :: "engine \<Rightarrow> http_result \<Rightarrow> store \<Rightarrow> store" where
  "fetchIncidents eng res st =
     (case res of
        Rejected response_message message \<Rightarrow> catch_branch response_message message st
      | Resolved d \<Rightarrow>
          (case normalizePayload eng d of
             Inl TypeError \<Rightarrow> catch_branch JUndefined (JStr (type_error_message eng)) st
           | Inr formatted \<Rightarrow> st\<lparr>incidents := formatted, error := JNull, loading := False\<rparr>))"

text \<open>A poll fails when the request is rejected or normalization throws.\<close>

definition poll_fails :: "engine \<Rightarrow> http_result \<Rightarrow> bool" where
  "poll_fails eng res =
     (case res of
        Rejected response_message message \<Rightarrow> True
      | Resolved d \<Rightarrow> (case normalizePayload eng d of Inl e \<Rightarrow> True | Inr formatted \<Rightarrow> False))"

subsection \<open>\<^verbatim>\<open>sortedIncidents\<close>\<close>

text \<open>
  The comparator of lines 99--133. Its result is a number; \<open>None\<close> stands for \<^verbatim>\<open>NaN\<close>, the
  difference of two dates of which one is invalid.
\<close>

definition sort_value :: "sort_key \<Rightarrow> obj \<Rightarrow> jsval" where
  "sort_value k a = (let v = lookup a (key_name k) in if nullish v then JStr [] else v)"

fun string_of :: "jsval \<Rightarrow> string" where
  "string_of (JStr s) = s"
| "string_of v = []"

definition date_minus :: "int option \<Rightarrow> int option \<Rightarrow> int option" where
  "date_minus x y =
     (case x of None \<Rightarrow> None
      | Some tx \<Rightarrow> (case y of None \<Rightarrow> None | Some ty \<Rightarrow> Some (tx - ty)))"

definition compare_incidents :: "engine \<Rightarrow> sort_config \<Rightarrow> obj \<Rightarrow> obj \<Rightarrow> int option" where
  "compare_incidents eng cfg a b =
     (let aValue = sort_value (key cfg) a;
          bValue = sort_value (key cfg) b
      in if key cfg = Timestamp then
           (let dateA = date_ms eng aValue; dateB = date_ms eng bValue
            in if direction cfg = Asc then date_minus dateA dateB
               else date_minus dateB dateA)
         else if isString aValue \<and> isString bValue then
           (if direction cfg = Asc
            then Some (locale_compare eng (string_of aValue) (string_of bValue))
            else Some (locale_compare eng (string_of bValue) (string_of aValue)))
         else if direction cfg = Asc then
           Some (if js_less eng aValue bValue then - 1
                 else if js_less eng bValue aValue then 1 else 0)
         else
           Some (if js_less eng bValue aValue then - 1
                 else if js_less eng aValue bValue then 1 else 0))"

text \<open>
  \<^verbatim>\<open>Array.prototype.sort\<close> with a comparator. The engine takes a \<^verbatim>\<open>NaN\<close> result as \<open>+0\<close>,
  and the sort is stable. It is modelled as the insertion sort that puts each element
  before the first one it does not compare greater than. On elements the comparator orders
  consistently, every conforming engine returns this list; where the comparator is not
  consistent the standard leaves the order to the engine, and this is one order it may
  return.
\<close>

definition sort_compare :: "('a \<Rightarrow> 'a \<Rightarrow> int option) \<Rightarrow> 'a \<Rightarrow> 'a \<Rightarrow> int" where
  "sort_compare comparefn a b = (case comparefn a b of None \<Rightarrow> 0 | Some v \<Rightarrow> v)"

fun insort_cmp :: "('a \<Rightarrow> 'a \<Rightarrow> int) \<Rightarrow> 'a \<Rightarrow> 'a list \<Rightarrow> 'a list" where
  "insort_cmp c x [] = [x]"
| "insort_cmp c x (y # ys) = (if c x y \<le> 0 then x # y # ys else y # insort_cmp c x ys)"

definition js_sort :: "('a \<Rightarrow> 'a \<Rightarrow> int option) \<Rightarrow> 'a list \<Rightarrow> 'a list" where
  "js_sort comparefn xs = foldr (insort_cmp (sort_compare comparefn)) xs []"

text \<open>
  Lines 96--136. The key of the sort config is one of three non-empty strings, so the
  test \<^verbatim>\<open>sortConfig.key &&\<close> holds; the copy \<^verbatim>\<open>[...incidents]\<close> is the list itself.
\<close>

definition sortedIncidents :: "engine \<Rightarrow> store \<Rightarrow> obj list" where
  "sortedIncidents eng st =
     (let sortableIncidents = incidents st
      in if length sortableIncidents > 0
         then js_sort (compare_incidents eng (sortConfig st)) sortableIncidents
         else sortableIncidents)"

subsection \<open>Selection\<close>

text \<open>Lines 139--147.\<close>

definition toggleIncidentSelection :: "jsval \<Rightarrow> store \<Rightarrow> store" where
  "toggleIncidentSelection i st =
     (let newSelected = selectedIncidents st
      in if i |\<in>| newSelected
         then st\<lparr>selectedIncidents := newSelected |-| {|i|}\<rparr>
         else st\<lparr>selectedIncidents := finsert i newSelected\<rparr>)"

text \<open>Lines 149--155: the test compares the size of the set with the length of the list.\<close>

definition listed_ids :: "store \<Rightarrow> jsval list" where
  "listed_ids st = map (\<lambda>inc. lookup inc ''id'') (incidents st)"

definition toggleSelectAll :: "store \<Rightarrow> store" where
  "toggleSelectAll st =
     (if fcard (selectedIncidents st) = length (incidents st) \<and> length (incidents st) > 0
      then st\<lparr>selectedIncidents := {||}\<rparr>
      else st\<lparr>selectedIncidents := fset_of_list (listed_ids st)\<rparr>)"

text \<open>
  The same function in \<^verbatim>\<open>src/unnamed/part_000\<close>, lines 91--97, without the test that the
  list is not empty. (That variant keeps the raw entries of the payload in its list; the
  function is modelled on a list of objects.)
\<close>

definition toggleSelectAll_part_000 :: "store \<Rightarrow> store" where
  "toggleSelectAll_part_000 st =
     (if fcard (selectedIncidents st) = length (incidents st)
      then st\<lparr>selectedIncidents := {||}\<rparr>
      else st\<lparr>selectedIncidents := fset_of_list (listed_ids st)\<rparr>)"

subsection \<open>Sorting by timestamp\<close>

text \<open>
  The time value of the date the comparator builds from an incident, \<^verbatim>\<open>new Date(aValue)\<close>
  after the replacement of a missing value by the empty string; \<open>None\<close> when the timestamp
  cannot be parsed.
\<close>

definition time_of :: "engine \<Rightarrow> obj \<Rightarrow> int option" where
  "time_of eng a = date_ms eng (sort_value Timestamp a)"

text \<open>
  Two incidents tie under the timestamp comparator when the sort sees the result \<open>0\<close>
  for them: the two dates are equal, or one of them is invalid and the difference is \<^verbatim>\<open>NaN\<close>.
\<close>

definition ties :: "engine \<Rightarrow> obj \<Rightarrow> obj \<Rightarrow> bool" where
  "ties eng a b =
     (sort_compare (compare_incidents eng \<lparr>key = Timestamp, direction = Asc\<rparr>) a b = 0)"

definition by_timestamp :: "direction \<Rightarrow> store \<Rightarrow> store" where
  "by_timestamp dir st = st\<lparr>sortConfig := \<lparr>key = Timestamp, direction = dir\<rparr>\<rparr>"

section \<open>The priority table of the specification\<close>

text \<open>
  Section 4.1 of the specification, in its own words: each canonical field is filled
  ``from the first populated candidate among a fixed priority list of alternate upstream
  field names'', with a default at the end of the list. These three definitions follow
  that sentence, to be compared with \<open>formatIncident\<close>, which follows the code.
\<close>

fun first_populated :: "jsval list \<Rightarrow> jsval \<Rightarrow> jsval" where
  "first_populated [] d = d"
| "first_populated (c # cs) d = (if truthy c then c else first_populated cs d)"

definition spec_candidates :: "string \<Rightarrow> string list" where
  "spec_candidates K =
     (if K = ''incident_type'' then [''incident_type'', ''type'', ''category'']
      else if K = ''user_id'' then [''user_id'', ''user'', ''employee_id'']
      else if K = ''platform'' then [''platform'', ''source'', ''channel'']
      else if K = ''action'' then [''action'', ''response'']
      else [])"

definition spec_default :: "string \<Rightarrow> string" where
  "spec_default K =
     (if K = ''incident_type'' then ''Unknown''
      else if K = ''user_id'' then ''N/A''
      else if K = ''platform'' then ''Unknown''
      else if K = ''action'' then ''NOTIFY''
      else [])"

section \<open>Concrete inputs\<close>

text \<open>
  An engine for the examples: ids \<^verbatim>\<open>r0\<close>, \<^verbatim>\<open>r1\<close>, ... for entries that have none, a fixed
  clock, and a \<^verbatim>\<open>Date\<close> that knows three ISO dates and finds every other value invalid.
\<close>

definition example_engine :: engine where
  "example_engine =
     \<lparr>random_id = (\<lambda>i. ''r'' @ show_nat i),
      now_iso = (\<lambda>i. ''2025-01-01T00:00:00.000Z''),
      date_ms = (\<lambda>v. if v = JStr ''2024-01-01T00:00:00Z'' then Some 1704067200000
                      else if v = JStr ''2024-01-02T00:00:00Z'' then Some 1704153600000
                      else if v = JStr ''2024-01-03T00:00:00Z'' then Some 1704240000000
                      else None),
      locale_compare = (\<lambda>a b. 0),
      js_less = (\<lambda>a b. False),
      type_error_message = ''Cannot read properties of null''\<rparr>"

text \<open>
  Stores reached by running the component: a first successful poll of two incidents, the
  selection of the first of them, and a later poll that replaces the list by one other
  incident (the selection is not pruned).
\<close>

definition two_ids_payload :: jsval where
  "two_ids_payload =
     JObj [(''incidents'', JArr [JObj [(''id'', JNum 1)], JObj [(''id'', JNum 2)]])]"

definition loaded_two :: store where
  "loaded_two = fetchIncidents example_engine (Resolved two_ids_payload) initial_store"

definition selected_one :: store where
  "selected_one = toggleIncidentSelection (JNum 1) loaded_two"

definition replaced_list :: store where
  "replaced_list =
     fetchIncidents example_engine (Resolved (JArr [JObj [(''id'', JNum 3)]])) selected_one"

text \<open>A poll with one parsable and one unparsable timestamp, and one with three dates.\<close>

definition mixed_payload :: jsval where
  "mixed_payload =
     JArr [JObj [(''id'', JNum 1), (''timestamp'', JStr ''2024-01-01T00:00:00Z'')],
           JObj [(''id'', JNum 2), (''timestamp'', JStr ''not a date'')]]"

definition loaded_mixed :: store where
  "loaded_mixed = fetchIncidents example_engine (Resolved mixed_payload) initial_store"

definition three_dates_payload :: jsval where
  "three_dates_payload =
     JObj [(''data'',
       JArr [JObj [(''id'', JNum 1), (''timestamp'', JStr ''2024-01-02T00:00:00Z'')],
             JObj [(''id'', JNum 2), (''date'', JStr ''2024-01-01T00:00:00Z'')],
             JObj [(''id'', JNum 3), (''created_at'', JStr ''2024-01-03T00:00:00Z'')]])]"

definition loaded_three :: store where
  "loaded_three = fetchIncidents example_engine (Resolved three_dates_payload) initial_store"

text \<open>A successful poll of eight incidents.\<close>

definition eight_payload :: jsval where
  "eight_payload = JArr (map (\<lambda>n. JObj [(''id'', JNum n)]) [1, 2, 3, 4, 5, 6, 7, 8])"

definition loaded_eight :: store where
  "loaded_eight = fetchIncidents example_engine (Resolved eight_payload) initial_store"

section \<open>Object literals and spread\<close>

lemma set_prop_keys:
  "map fst (set_prop ps k v) = (if k \<in> set (map fst ps) then map fst ps else map fst ps @ [k])"
  by (induction ps) (auto simp: rev_image_eqI)

lemma set_prop_new: "k \<notin> set (map fst ps) \<Longrightarrow> set_prop ps k v = ps @ [(k, v)]"
  by (induction ps) auto

lemma set_prop_append_skip:
  "k \<notin> set (map fst P) \<Longrightarrow> set_prop (P @ B) k v = P @ set_prop B k v"
  by (induction P) auto

lemma lookup_set_prop: "lookup (set_prop ps k v) k' = (if k' = k then v else lookup ps k')"
  by (induction ps) (auto simp: lookup_def)

lemma spread_Nil: "spread base [] = base"
  by (simp add: spread_def)

lemma spread_Cons: "spread base ((k, v) # src) = spread (set_prop base k v) src"
  by (simp add: spread_def)

lemma spread_append: "spread base (xs @ ys) = spread (spread base xs) ys"
  by (simp add: spread_def)

lemma spread_keys_prefix:
  "take (length base) (map fst (spread base src)) = map fst base"
proof (induction src arbitrary: base)
  case Nil
  show ?case by (simp add: spread_Nil)
next
  case (Cons p src)
  obtain k v where p: "p = (k, v)" by (cases p)
  have "take (length base) (map fst (spread (set_prop base k v) src))
        = take (length base) (take (length (set_prop base k v)) (map fst (spread (set_prop base k v) src)))"
    using arg_cong [OF set_prop_keys [of base k v], of length]
    by (simp add: min_def split: if_splits)
  also have "\<dots> = take (length base) (map fst (set_prop base k v))"
    by (simp only: Cons.IH)
  also have "\<dots> = map fst base"
    by (simp add: set_prop_keys)
  finally show ?case by (simp add: p spread_Cons)
qed

lemma spread_keys_base: "k \<in> set (map fst base) \<Longrightarrow> k \<in> set (map fst (spread base src))"
proof -
  assume "k \<in> set (map fst base)"
  then have "k \<in> set (take (length base) (map fst (spread base src)))"
    by (simp only: spread_keys_prefix)
  then show ?thesis by (rule in_set_takeD)
qed

lemma spread_keys_distinct:
  "distinct (map fst base) \<Longrightarrow> distinct (map fst (spread base src))"
proof (induction src arbitrary: base)
  case Nil
  then show ?case by (simp add: spread_Nil)
next
  case (Cons p src)
  obtain k v where p: "p = (k, v)" by (cases p)
  have "distinct (map fst (set_prop base k v))"
    using Cons.prems by (simp add: set_prop_keys)
  from Cons.IH [OF this] show ?case by (simp add: p spread_Cons)
qed

lemma spread_fresh:
  "distinct (map fst src) \<Longrightarrow> set (map fst src) \<inter> set (map fst acc) = {}
   \<Longrightarrow> spread acc src = acc @ src"
proof (induction src arbitrary: acc)
  case Nil
  show ?case by (simp add: spread_Nil)
next
  case (Cons p src)
  obtain k v where p: "p = (k, v)" by (cases p)
  have new: "k \<notin> set (map fst acc)" using Cons.prems(2) by (auto simp: p)
  have "spread (acc @ [(k, v)]) src = (acc @ [(k, v)]) @ src"
    using Cons.prems by (intro Cons.IH) (auto simp: p)
  then show ?case by (simp add: p spread_Cons set_prop_new [OF new])
qed

lemma spread_overwrite:
  "map fst B = map fst R \<Longrightarrow> distinct (map fst R)
   \<Longrightarrow> set (map fst P) \<inter> set (map fst R) = {}
   \<Longrightarrow> spread (P @ B) R = P @ R"
proof (induction R arbitrary: P B)
  case Nil
  then show ?case by (simp add: spread_Nil)
next
  case (Cons p R)
  obtain k v where p: "p = (k, v)" by (cases p)
  from Cons.prems(1) obtain b B' where B: "B = (k, b) # B'" and B': "map fst B' = map fst R"
    by (cases B) (auto simp: p)
  have skip: "k \<notin> set (map fst P)" using Cons.prems(3) by (auto simp: p)
  have "spread ((P @ [(k, v)]) @ B') R = (P @ [(k, v)]) @ R"
    using Cons.prems B' by (intro Cons.IH) (auto simp: p)
  then show ?case
    by (simp add: p B spread_Cons set_prop_append_skip [OF skip])
qed

text \<open>
  Spreading an object over a literal whose keys are the first keys of that object, in the
  same order, gives the object back: every key of the literal is overwritten in place and
  the remaining keys are appended.
\<close>

lemma spread_absorb:
  assumes d: "distinct (map fst R)" and pre: "map fst B = take (length B) (map fst R)"
  shows "spread B R = R"
proof -
  let ?n = "length B"
  have R: "R = take ?n R @ drop ?n R" by simp
  have dt: "distinct (map fst (take ?n R))"
    using distinct_take [OF d, of ?n] by (simp add: take_map)
  have 1: "spread ([] @ B) (take ?n R) = [] @ take ?n R"
    using dt pre by (intro spread_overwrite) (auto simp: take_map)
  have dd: "distinct (map fst (take ?n R @ drop ?n R))" using d by simp
  have 2: "spread (take ?n R) (drop ?n R) = take ?n R @ drop ?n R"
    using dd by (intro spread_fresh) (auto simp del: append_take_drop_id)
  have "spread B R = spread (spread B (take ?n R)) (drop ?n R)"
    by (subst R) (simp only: spread_append)
  then show ?thesis using 1 2 by simp
qed

lemma lookup_spread:
  "distinct (map fst src) \<Longrightarrow>
   lookup (spread base src) K = (if K \<in> set (map fst src) then lookup src K else lookup base K)"
proof (induction src arbitrary: base)
  case Nil
  show ?case by (simp add: spread_Nil)
next
  case (Cons p src)
  obtain k v where p: "p = (k, v)" by (cases p)
  have d: "distinct (map fst src)" and nk: "k \<notin> set (map fst src)"
    using Cons.prems by (auto simp: p)
  have hd: "lookup ((k, v) # src) K = (if K = k then v else lookup src K)"
    by (simp add: lookup_def)
  show ?case
    using nk by (auto simp: p spread_Cons Cons.IH [OF d] lookup_set_prop hd)
qed

section \<open>Facts about normalization\<close>

lemma canonical_keys:
  "map fst (canonical rnd now e) =
     [''id'', ''timestamp'', ''incident_type'', ''user_id'', ''platform'', ''action'']"
  by (simp add: canonical_def)

lemma canonical_length: "length (canonical rnd now e) = 6"
  by (simp add: canonical_def)

lemma canonical_has_key:
  "K \<in> {''incident_type'', ''user_id'', ''platform'', ''action''} \<Longrightarrow>
   K \<in> set (map fst (canonical rnd now e))"
  by (auto simp: canonical_keys)

lemma formatIncident_idem:
  assumes "formatIncident rnd now e = Inr r"
  shows "formatIncident rnd' now' (JObj r) = Inr r"
proof -
  from assms have r: "r = spread (canonical rnd now e) (own_props e)"
    by (simp add: formatIncident_def split: if_splits)
  have d: "distinct (map fst r)"
    unfolding r by (rule spread_keys_distinct) (simp add: canonical_keys)
  have "take 6 (map fst r) = map fst (canonical rnd now e)"
    unfolding r using spread_keys_prefix [of "canonical rnd now e" "own_props e"]
    by (simp add: canonical_keys canonical_length)
  then have pre: "map fst (canonical rnd' now' (JObj r))
      = take (length (canonical rnd' now' (JObj r))) (map fst r)"
    by (simp add: canonical_keys canonical_length)
  show ?thesis
    by (simp add: formatIncident_def spread_absorb [OF d pre])
qed

lemma format_from_idem:
  "format_from eng i es = Inr rs \<Longrightarrow> format_from eng' j (map JObj rs) = Inr rs"
proof (induction es arbitrary: i j rs)
  case Nil
  then show ?case by simp
next
  case (Cons e es)
  from Cons.prems obtain r rs' where
    r: "formatIncident (random_id eng i) (now_iso eng i) e = Inr r" and
    rs': "format_from eng (Suc i) es = Inr rs'" and rs: "rs = r # rs'"
    by (auto split: sum.splits)
  have "format_from eng' (Suc j) (map JObj rs') = Inr rs'"
    using rs' by (rule Cons.IH)
  then show ?case
    by (simp add: rs formatIncident_idem [OF r])
qed

lemma first_populated_truthy: "truthy d \<Longrightarrow> truthy (first_populated cs d)"
  by (induction cs) auto

lemma first_populated_string:
  "isString d \<Longrightarrow> \<forall>c\<in>set cs. c = JUndefined \<or> isString c \<Longrightarrow> isString (first_populated cs d)"
  by (induction cs) auto

lemma canonical_lookup:
  "K \<in> {''incident_type'', ''user_id'', ''platform'', ''action''} \<Longrightarrow>
   lookup (canonical rnd now e) K
     = first_populated (map (field e) (spec_candidates K)) (JStr (spec_default K))"
  by (auto simp: canonical_def lookup_def spec_candidates_def spec_default_def js_or_def)

lemma spec_candidates_head:
  "K \<in> {''incident_type'', ''user_id'', ''platform'', ''action''} \<Longrightarrow>
   \<exists>cs. spec_candidates K = K # cs"
  by (auto simp: spec_candidates_def)

lemma field_own: "truthy (field e K) \<Longrightarrow> field e K = lookup (own_props e) K"
  by (cases e) auto

lemma normalize_array: "normalizePayload eng (JArr es) = formattedIncidents eng es"
  by (simp add: normalizePayload_def incidentsData_def)

lemma normalize_wrapper:
  "k \<in> {''incidents'', ''data'', ''results''} \<Longrightarrow>
   normalizePayload eng (JObj [(k, JArr es)]) = formattedIncidents eng es"
  by (auto simp: normalizePayload_def incidentsData_def wrapped_def lookup_def)

lemma normalize_unknown:
  "\<not> wrapped (JObj ps) ''incidents'' \<Longrightarrow> \<not> wrapped (JObj ps) ''data'' \<Longrightarrow>
   \<not> wrapped (JObj ps) ''results'' \<Longrightarrow>
   normalizePayload eng (JObj ps) = formattedIncidents eng (map snd ps)"
  by (simp add: normalizePayload_def incidentsData_def Object_values_def)

lemma format_from_total:
  "\<forall>x\<in>set xs. \<not> nullish x \<Longrightarrow> \<exists>rs. format_from eng i xs = Inr rs \<and> length rs = length xs"
proof (induction xs arbitrary: i)
  case Nil
  show ?case by simp
next
  case (Cons x xs)
  then obtain rs where "format_from eng (Suc i) xs = Inr rs" "length rs = length xs"
    by fastforce
  moreover have "\<not> nullish x" using Cons.prems by simp
  ultimately show ?case by (simp add: formatIncident_def)
qed

lemma incidentsData_total: "\<not> nullish d \<Longrightarrow> \<exists>xs. incidentsData d = Inr xs"
  by (simp add: incidentsData_def)

lemma catch_branch_keeps:
  "incidents (catch_branch rm m st) = incidents st \<and>
   selectedIncidents (catch_branch rm m st) = selectedIncidents st \<and>
   sortConfig (catch_branch rm m st) = sortConfig st \<and>
   loading (catch_branch rm m st) = False \<and>
   truthy (error (catch_branch rm m st))"
  by (simp add: catch_branch_def js_or_def default_error_message_def)

section \<open>Facts about the sort\<close>

lemma js_sort_Nil: "js_sort c [] = []"
  by (simp add: js_sort_def)

lemma js_sort_Cons:
  "js_sort c (x # xs) = insort_cmp (sort_compare c) x (js_sort c xs)"
  by (simp add: js_sort_def)

lemma js_sort_single: "js_sort c [x] = [x]"
  by (simp add: js_sort_def)

lemma insort_cmp_front: "\<forall>y\<in>set ys. c x y \<le> 0 \<Longrightarrow> insort_cmp c x ys = x # ys"
  by (cases ys) auto

text \<open>When every two elements compare as equal, the stable sort returns its input.\<close>

lemma js_sort_all_ties:
  "\<forall>a\<in>set xs. \<forall>b\<in>set xs. sort_compare c a b = 0 \<Longrightarrow> js_sort c xs = xs"
proof (induction xs)
  case Nil
  show ?case by (simp add: js_sort_Nil)
next
  case (Cons x xs)
  then have "js_sort c xs = xs" by simp
  moreover have "insort_cmp (sort_compare c) x xs = x # xs"
    using Cons.prems by (intro insort_cmp_front) simp
  ultimately show ?case by (simp add: js_sort_Cons)
qed

lemma compare_timestamp:
  "sort_compare (compare_incidents eng \<lparr>key = Timestamp, direction = dir\<rparr>) a b =
     (case time_of eng a of None \<Rightarrow> 0
      | Some ta \<Rightarrow> (case time_of eng b of None \<Rightarrow> 0
                   | Some tb \<Rightarrow> if dir = Asc then ta - tb else tb - ta))"
  by (simp add: sort_compare_def compare_incidents_def time_of_def date_minus_def Let_def
      split: option.splits)

lemma sortedIncidents_by_timestamp:
  "sortedIncidents eng (by_timestamp dir st)
     = js_sort (compare_incidents eng \<lparr>key = Timestamp, direction = dir\<rparr>) (incidents st)"
  by (cases "incidents st") (simp_all add: sortedIncidents_def by_timestamp_def js_sort_Nil)

lemma ties_invalid: "time_of eng a = None \<Longrightarrow> ties eng a b"
  by (simp add: ties_def compare_timestamp)

lemma ties_same_time: "time_of eng a = time_of eng b \<Longrightarrow> ties eng a b"
  by (auto simp: ties_def compare_timestamp split: option.splits)

text \<open>
  Where the comparator agrees with the order of an integer key, the sort is the library's
  stable \<open>sort_key\<close>; on distinct keys, sorting by the negated key reverses the result.
\<close>

lemma insort_cmp_key:
  "\<forall>y\<in>set ys. (c x y \<le> 0) = (f x \<le> f y) \<Longrightarrow> insort_cmp c x ys = insort_key f x ys"
  by (induction ys) auto

lemma js_sort_key:
  fixes f :: "'a \<Rightarrow> int"
  assumes "\<forall>a\<in>set xs. \<forall>b\<in>set xs. (sort_compare c a b \<le> 0) = (f a \<le> f b)"
  shows "js_sort c xs = sort_key f xs"
  using assms
proof (induction xs)
  case Nil
  show ?case by (simp add: js_sort_Nil)
next
  case (Cons x xs)
  then have IH: "js_sort c xs = sort_key f xs" by simp
  have "insort_cmp (sort_compare c) x (sort_key f xs) = insort_key f x (sort_key f xs)"
    using Cons.prems by (intro insort_cmp_key) simp
  then show ?case by (simp add: js_sort_Cons IH)
qed

lemma rev_sort_key_neg:
  fixes f :: "'a \<Rightarrow> int"
  assumes d: "distinct xs" and inj: "inj_on f (set xs)"
  shows "sort_key (\<lambda>x. - f x) xs = rev (sort_key f xs)"
proof (rule map_sorted_distinct_set_unique [where f = "\<lambda>x. - f x"])
  show "inj_on (\<lambda>x. - f x) (set (sort_key (\<lambda>x. - f x) xs) \<union> set (rev (sort_key f xs)))"
    using inj by (auto simp: inj_on_def)
  show "sorted (map (\<lambda>x. - f x) (sort_key (\<lambda>x. - f x) xs))" by simp
  show "distinct (map (\<lambda>x. - f x) (sort_key (\<lambda>x. - f x) xs))"
    using d inj by (auto simp: distinct_map inj_on_def)
  have "sorted (map f (sort_key f xs))" by simp
  then show "sorted (map (\<lambda>x. - f x) (rev (sort_key f xs)))"
    by (simp add: rev_map [symmetric] sorted_wrt_rev sorted_wrt_map del: rev_map)
  show "distinct (map (\<lambda>x. - f x) (rev (sort_key f xs)))"
    using d inj by (auto simp: distinct_map inj_on_def)
  show "set (sort_key (\<lambda>x. - f x) xs) = set (rev (sort_key f xs))" by simp
qed

text \<open>
  Without ties, all timestamps are valid and pairwise distinct, the comparator is the
  order of the time values, and the descending sort is the reverse of the ascending one.
\<close>

lemma desc_is_rev_asc_without_ties:
  assumes no_ties:
    "\<forall>i<length (incidents st). \<forall>j<length (incidents st).
        i \<noteq> j \<longrightarrow> \<not> ties eng (incidents st ! i) (incidents st ! j)"
  shows "sortedIncidents eng (by_timestamp Desc st)
           = rev (sortedIncidents eng (by_timestamp Asc st))"
proof -
  let ?xs = "incidents st"
  let ?f = "\<lambda>a. the (time_of eng a)"
  let ?asc = "compare_incidents eng \<lparr>key = Timestamp, direction = Asc\<rparr>"
  let ?desc = "compare_incidents eng \<lparr>key = Timestamp, direction = Desc\<rparr>"
  show ?thesis
  proof (cases "length ?xs \<le> 1")
    case True
    then have "?xs = [] \<or> (\<exists>x. ?xs = [x])"
      by (cases ?xs) (auto simp: length_Suc_conv)
    then show ?thesis
      by (auto simp: sortedIncidents_by_timestamp js_sort_Nil js_sort_single)
  next
    case False
    have d: "distinct ?xs"
      unfolding distinct_conv_nth
    proof (intro allI impI)
      fix i j assume "i < length ?xs" "j < length ?xs" "i \<noteq> j"
      with no_ties have "\<not> ties eng (?xs ! i) (?xs ! j)" by blast
      then show "?xs ! i \<noteq> ?xs ! j" using ties_same_time [of eng "?xs ! i" "?xs ! j"] by auto
    qed
    have valid: "time_of eng a \<noteq> None" if "a \<in> set ?xs" for a
    proof -
      from that obtain i where i: "i < length ?xs" "?xs ! i = a"
        by (auto simp: in_set_conv_nth)
      from False obtain j where j: "j < length ?xs" "j \<noteq> i"
        by (cases "i = 0") (auto intro: that [of 0] that [of 1])
      with no_ties i have nt: "\<not> ties eng a (?xs ! j)" by blast
      show ?thesis
      proof
        assume "time_of eng a = None"
        then have "ties eng a (?xs ! j)" by (rule ties_invalid)
        with nt show False by contradiction
      qed
    qed
    have inj: "inj_on ?f (set ?xs)"
    proof (rule inj_onI)
      fix a b assume a: "a \<in> set ?xs" and b: "b \<in> set ?xs" and eq: "?f a = ?f b"
      show "a = b"
      proof (rule ccontr)
        assume ne: "a \<noteq> b"
        from a obtain i where i: "i < length ?xs" "?xs ! i = a" by (auto simp: in_set_conv_nth)
        from b obtain j where j: "j < length ?xs" "?xs ! j = b" by (auto simp: in_set_conv_nth)
        from ne i j have "i \<noteq> j" by auto
        with no_ties i j have "\<not> ties eng a b" by blast
        moreover have "time_of eng a = time_of eng b"
          using valid [OF a] valid [OF b] eq by auto
        ultimately show False using ties_same_time by blast
      qed
    qed
    have cmp: "sort_compare (compare_incidents eng \<lparr>key = Timestamp, direction = dir\<rparr>) a b
        = (if dir = Asc then ?f a - ?f b else ?f b - ?f a)"
      if "a \<in> set ?xs" "b \<in> set ?xs" for a b dir
    proof -
      from valid [OF that(1)] obtain ta where "time_of eng a = Some ta" by auto
      moreover from valid [OF that(2)] obtain tb where "time_of eng b = Some tb" by auto
      ultimately show ?thesis by (simp add: compare_timestamp)
    qed
    have asc: "js_sort ?asc ?xs = sort_key ?f ?xs"
      by (intro js_sort_key) (simp add: cmp)
    have desc: "js_sort ?desc ?xs = sort_key (\<lambda>a. - ?f a) ?xs"
      by (intro js_sort_key) (simp add: cmp)
    show ?thesis
      by (simp only: sortedIncidents_by_timestamp asc desc rev_sort_key_neg [OF d inj])
  qed
qed

section \<open>Facts about the selection\<close>

lemma fcard_fset_of_list: "distinct xs \<Longrightarrow> fcard (fset_of_list xs) = length xs"
  by (simp add: fcard.rep_eq fset_of_list.rep_eq distinct_card)

lemma listed_ids_length: "length (listed_ids st) = length (incidents st)"
  by (simp add: listed_ids_def)

lemma listed_ids_selection [simp]: "listed_ids (st\<lparr>selectedIncidents := S\<rparr>) = listed_ids st"
  by (simp add: listed_ids_def)

text \<open>
  The two variants of \<^verbatim>\<open>toggleSelectAll\<close> compute the same store: they differ only on an
  empty list with an empty selection, where clearing and selecting all ids coincide.
\<close>

lemma toggleSelectAll_variants_agree: "toggleSelectAll_part_000 st = toggleSelectAll st"
  by (cases "incidents st") (simp_all add: toggleSelectAll_part_000_def toggleSelectAll_def listed_ids_def)

section \<open>The concrete runs, evaluated\<close>

lemmas eval_defs = normalizePayload_def incidentsData_def wrapped_def lookup_def formattedIncidents_def
  formatIncident_def canonical_def js_or_def spread_def Object_values_def example_engine_def
  show_nat.simps digit_char_def fetchIncidents_def initial_store_def

lemma loaded_two_incidents:
  "incidents loaded_two =
     [[(''id'', JNum 1), (''timestamp'', JStr ''2025-01-01T00:00:00.000Z''),
       (''incident_type'', JStr ''Unknown''), (''user_id'', JStr ''N/A''),
       (''platform'', JStr ''Unknown''), (''action'', JStr ''NOTIFY'')],
      [(''id'', JNum 2), (''timestamp'', JStr ''2025-01-01T00:00:00.000Z''),
       (''incident_type'', JStr ''Unknown''), (''user_id'', JStr ''N/A''),
       (''platform'', JStr ''Unknown''), (''action'', JStr ''NOTIFY'')]]"
  by (simp add: loaded_two_def two_ids_payload_def eval_defs)

lemma loaded_two_selection: "selectedIncidents loaded_two = {||}"
  by (simp add: loaded_two_def two_ids_payload_def eval_defs)

lemma loaded_two_ids: "listed_ids loaded_two = [JNum 1, JNum 2]"
  by (simp add: listed_ids_def loaded_two_incidents lookup_def)

lemma selected_one_state:
  "incidents selected_one = incidents loaded_two \<and> selectedIncidents selected_one = {|JNum 1|}"
  by (simp add: selected_one_def toggleIncidentSelection_def loaded_two_selection)

lemma replaced_list_state:
  "listed_ids replaced_list = [JNum 3] \<and> selectedIncidents replaced_list = {|JNum 1|}
   \<and> length (incidents replaced_list) = 1"
  by (simp add: replaced_list_def listed_ids_def selected_one_state eval_defs)

lemma loaded_mixed_incidents:
  "incidents loaded_mixed =
     [[(''id'', JNum 1), (''timestamp'', JStr ''2024-01-01T00:00:00Z''),
       (''incident_type'', JStr ''Unknown''), (''user_id'', JStr ''N/A''),
       (''platform'', JStr ''Unknown''), (''action'', JStr ''NOTIFY'')],
      [(''id'', JNum 2), (''timestamp'', JStr ''not a date''),
       (''incident_type'', JStr ''Unknown''), (''user_id'', JStr ''N/A''),
       (''platform'', JStr ''Unknown''), (''action'', JStr ''NOTIFY'')]]"
  by (simp add: loaded_mixed_def mixed_payload_def eval_defs)

lemma loaded_three_incidents:
  "incidents loaded_three =
     [[(''id'', JNum 1), (''timestamp'', JStr ''2024-01-02T00:00:00Z''),
       (''incident_type'', JStr ''Unknown''), (''user_id'', JStr ''N/A''),
       (''platform'', JStr ''Unknown''), (''action'', JStr ''NOTIFY'')],
      [(''id'', JNum 2), (''timestamp'', JStr ''2024-01-01T00:00:00Z''),
       (''incident_type'', JStr ''Unknown''), (''user_id'', JStr ''N/A''),
       (''platform'', JStr ''Unknown''), (''action'', JStr ''NOTIFY''),
       (''date'', JStr ''2024-01-01T00:00:00Z'')],
      [(''id'', JNum 3), (''timestamp'', JStr ''2024-01-03T00:00:00Z''),
       (''incident_type'', JStr ''Unknown''), (''user_id'', JStr ''N/A''),
       (''platform'', JStr ''Unknown''), (''action'', JStr ''NOTIFY''),
       (''created_at'', JStr ''2024-01-03T00:00:00Z'')]]"
  by (simp add: loaded_three_def three_dates_payload_def eval_defs)

lemma loaded_eight_state:
  "map (\<lambda>a. lookup a ''id'') (incidents loaded_eight)
     = [JNum 1, JNum 2, JNum 3, JNum 4, JNum 5, JNum 6, JNum 7, JNum 8]
   \<and> error loaded_eight = JNull"
  by (simp add: loaded_eight_def eight_payload_def eval_defs)

lemma time_of_examples:
  "time_of example_engine ((''id'', i) # (''timestamp'', JStr ''2024-01-01T00:00:00Z'') # r) = Some 1704067200000"
  "time_of example_engine ((''id'', i) # (''timestamp'', JStr ''2024-01-02T00:00:00Z'') # r) = Some 1704153600000"
  "time_of example_engine ((''id'', i) # (''timestamp'', JStr ''2024-01-03T00:00:00Z'') # r) = Some 1704240000000"
  "time_of example_engine ((''id'', i) # (''timestamp'', JStr ''not a date'') # r) = None"
  by (simp_all add: time_of_def sort_value_def lookup_def example_engine_def)

text \<open>
  The payload of the specification's example, \<^verbatim>\<open>{results:[{_id:7, date:"2024-01-01T00:00:00Z"}]}\<close>,
  normalizes to one record with the id, timestamp and defaults the example names, under
  every engine.
\<close>

lemma example_payload_normalizes:
  "normalizePayload eng
     (JObj [(''results'', JArr [JObj [(''_id'', JNum 7), (''date'', JStr ''2024-01-01T00:00:00Z'')]])])
   = Inr [[(''id'', JNum 7), (''timestamp'', JStr ''2024-01-01T00:00:00Z''),
           (''incident_type'', JStr ''Unknown''), (''user_id'', JStr ''N/A''),
           (''platform'', JStr ''Unknown''), (''action'', JStr ''NOTIFY''),
           (''_id'', JNum 7), (''date'', JStr ''2024-01-01T00:00:00Z'')]]"
  by (simp add: normalizePayload_def incidentsData_def wrapped_def lookup_def
      formattedIncidents_def formatIncident_def canonical_def js_or_def spread_def)

section \<open>The claims\<close>

subsection \<open>C1: the four fields after normalization\<close>

text \<open>
  As stated, C1 fails on two entries. The entry \<^verbatim>\<open>{type: 5}\<close> gives a record whose
  \<^verbatim>\<open>incident_type\<close> is the number 5, not a string: values pass through \<^verbatim>\<open>||\<close> as they are.
  The entry \<^verbatim>\<open>{action: null, response: "BLOCK"}\<close> gives a record whose \<^verbatim>\<open>action\<close> is \<^verbatim>\<open>null\<close>:
  the spread at the end of the literal writes the entry's own value over the computed one.
\<close>

theorem normalized_fields_counterexample:
  "normalizePayload example_engine
     (JArr [JObj [(''type'', JNum 5)],
            JObj [(''action'', JNull), (''response'', JStr ''BLOCK'')]])
   = Inr [[(''id'', JStr ''r0''), (''timestamp'', JStr ''2025-01-01T00:00:00.000Z''),
           (''incident_type'', JNum 5), (''user_id'', JStr ''N/A''),
           (''platform'', JStr ''Unknown''), (''action'', JStr ''NOTIFY''), (''type'', JNum 5)],
          [(''id'', JStr ''r1''), (''timestamp'', JStr ''2025-01-01T00:00:00.000Z''),
           (''incident_type'', JStr ''Unknown''), (''user_id'', JStr ''N/A''),
           (''platform'', JStr ''Unknown''), (''action'', JNull),
           (''response'', JStr ''BLOCK'')]]"
  by (simp add: eval_defs)

text \<open>
  C1 (amended). For every raw entry other than \<^verbatim>\<open>null\<close> and each of the fields
  \<^verbatim>\<open>incident_type\<close>, \<^verbatim>\<open>user_id\<close>, \<^verbatim>\<open>platform\<close> and \<^verbatim>\<open>action\<close>, the normalized record has the
  field. When the entry does not itself carry that key with an unpopulated value, the field
  holds the first populated candidate of its priority list, or the default when no
  candidate is populated; this value is populated (never \<^verbatim>\<open>null\<close>, \<^verbatim>\<open>undefined\<close> or empty), and
  it is a string whenever every candidate value the entry carries is a string.
  (An object has one value per key: the keys of the entry are distinct.)
\<close>

theorem normalized_fields_populated:
  assumes nn: "\<not> nullish e"
    and d: "distinct (map fst (own_props e))"
    and K: "K \<in> {''incident_type'', ''user_id'', ''platform'', ''action''}"
  shows "\<exists>r. formatIncident rnd now e = Inr r \<and> K \<in> set (map fst r) \<and>
     ((K \<in> set (map fst (own_props e)) \<longrightarrow> truthy (field e K)) \<longrightarrow>
        lookup r K = first_populated (map (field e) (spec_candidates K)) (JStr (spec_default K)) \<and>
        truthy (lookup r K) \<and>
        ((\<forall>c\<in>set (spec_candidates K). field e c = JUndefined \<or> isString (field e c))
           \<longrightarrow> isString (lookup r K)))"
proof -
  let ?r = "spread (canonical rnd now e) (own_props e)"
  let ?v = "first_populated (map (field e) (spec_candidates K)) (JStr (spec_default K))"
  have r: "formatIncident rnd now e = Inr ?r"
    using nn by (simp add: formatIncident_def)
  have key: "K \<in> set (map fst ?r)"
    by (rule spread_keys_base) (rule canonical_has_key [OF K])
  have dflt: "truthy (JStr (spec_default K))" "isString (JStr (spec_default K))"
    using K by (auto simp: spec_default_def)
  have val: "lookup ?r K = ?v" if own: "K \<in> set (map fst (own_props e)) \<longrightarrow> truthy (field e K)"
  proof (cases "K \<in> set (map fst (own_props e))")
    case False
    then show ?thesis by (simp add: lookup_spread [OF d] canonical_lookup [OF K])
  next
    case True
    with own have t: "truthy (field e K)" by simp
    from spec_candidates_head [OF K] obtain cs where cs: "spec_candidates K = K # cs" ..
    have "?v = field e K" using t by (simp add: cs)
    moreover have "lookup ?r K = field e K"
      using True by (simp add: lookup_spread [OF d] field_own [OF t])
    ultimately show ?thesis by simp
  qed
  have t: "truthy ?v" by (rule first_populated_truthy) (rule dflt)
  have s: "isString ?v"
    if "\<forall>c\<in>set (spec_candidates K). field e c = JUndefined \<or> isString (field e c)"
    using that by (intro first_populated_string dflt) simp
  show ?thesis
    using r key val t s by (intro exI [of _ ?r]) simp
qed

theorem normalized_fields_populated_witness:
  "\<not> nullish (JObj [(''category'', JStr ''Email''), (''user'', JStr ''bob'')]) \<and>
   distinct (map fst (own_props (JObj [(''category'', JStr ''Email''), (''user'', JStr ''bob'')]))) \<and>
   ''incident_type'' \<in> {''incident_type'', ''user_id'', ''platform'', ''action''} \<and>
   (\<exists>r. formatIncident ''r0'' ''2025-01-01T00:00:00.000Z''
          (JObj [(''category'', JStr ''Email''), (''user'', JStr ''bob'')]) = Inr r \<and>
        ''incident_type'' \<in> set (map fst r) \<and>
        lookup r ''incident_type'' = JStr ''Email'' \<and>
        truthy (lookup r ''incident_type'') \<and> isString (lookup r ''incident_type''))"
proof -
  let ?e = "JObj [(''category'', JStr ''Email''), (''user'', JStr ''bob'')]"
  have h1: "\<not> nullish ?e" by simp
  have h2: "distinct (map fst (own_props ?e))" by simp
  have h3: "''incident_type'' \<in> {''incident_type'', ''user_id'', ''platform'', ''action''}"
    by simp
  from normalized_fields_populated [OF h1 h2 h3, of "''r0''" "''2025-01-01T00:00:00.000Z''"]
  show ?thesis
    by (simp add: spec_candidates_def spec_default_def lookup_def)
qed

subsection \<open>C2: the first populated candidate\<close>

text \<open>
  C2. The example payload of the claim normalizes as stated (\<open>example_payload_normalizes\<close>
  above). The general sentence does not hold of the code: for the entry
  \<^verbatim>\<open>{incident_type: null, type: "Email"}\<close> the first populated candidate of \<^verbatim>\<open>incident_type\<close>
  is \<^verbatim>\<open>"Email"\<close>, and the record ends with \<^verbatim>\<open>incident_type: null\<close>, because the spread that the
  source comments as adding the other fields also overwrites the canonical ones.
\<close>

theorem first_populated_overwritten:
  "normalizePayload example_engine (JArr [JObj [(''incident_type'', JNull), (''type'', JStr ''Email'')]])
     = Inr [[(''id'', JStr ''r0''), (''timestamp'', JStr ''2025-01-01T00:00:00.000Z''),
             (''incident_type'', JNull), (''user_id'', JStr ''N/A''),
             (''platform'', JStr ''Unknown''), (''action'', JStr ''NOTIFY''),
             (''type'', JStr ''Email'')]] \<and>
   first_populated
     (map (field (JObj [(''incident_type'', JNull), (''type'', JStr ''Email'')]))
        (spec_candidates ''incident_type'')) (JStr (spec_default ''incident_type''))
     = JStr ''Email''"
  by (simp add: eval_defs spec_candidates_def spec_default_def)

subsection \<open>C3: payload shapes\<close>

text \<open>
  C3. For every list of raw entries, the bare array, the objects \<^verbatim>\<open>{incidents: entries}\<close>,
  \<^verbatim>\<open>{data: entries}\<close> and \<^verbatim>\<open>{results: entries}\<close>, and an arbitrary object whose values are those
  entries all normalize to the same result: the same sequence of records, or the same
  exception (for the same random ids and clock readings, where an entry needs them). The
  arbitrary object is the payload of unknown structure of the last branch of the shape
  test, one in which none of the three wrapper keys holds an array.
\<close>

theorem payload_shapes_agree:
  "normalizePayload eng (JObj [(''incidents'', JArr es)]) = normalizePayload eng (JArr es) \<and>
   normalizePayload eng (JObj [(''data'', JArr es)]) = normalizePayload eng (JArr es) \<and>
   normalizePayload eng (JObj [(''results'', JArr es)]) = normalizePayload eng (JArr es) \<and>
   (map snd ps = es \<and> \<not> wrapped (JObj ps) ''incidents'' \<and> \<not> wrapped (JObj ps) ''data''
      \<and> \<not> wrapped (JObj ps) ''results''
    \<longrightarrow> normalizePayload eng (JObj ps) = normalizePayload eng (JArr es))"
  using normalize_unknown [of ps eng]
  by (simp add: normalize_array normalize_wrapper)

theorem payload_shapes_agree_witness:
  "map snd [(''a'', JObj [(''id'', JNum 1)]), (''b'', JObj [(''_id'', JNum 2)])]
     = [JObj [(''id'', JNum 1)], JObj [(''_id'', JNum 2)]] \<and>
   \<not> wrapped (JObj [(''a'', JObj [(''id'', JNum 1)]), (''b'', JObj [(''_id'', JNum 2)])]) ''incidents'' \<and>
   \<not> wrapped (JObj [(''a'', JObj [(''id'', JNum 1)]), (''b'', JObj [(''_id'', JNum 2)])]) ''data'' \<and>
   \<not> wrapped (JObj [(''a'', JObj [(''id'', JNum 1)]), (''b'', JObj [(''_id'', JNum 2)])]) ''results'' \<and>
   normalizePayload example_engine (JObj [(''a'', JObj [(''id'', JNum 1)]), (''b'', JObj [(''_id'', JNum 2)])])
     = normalizePayload example_engine (JArr [JObj [(''id'', JNum 1)], JObj [(''_id'', JNum 2)]])"
  using payload_shapes_agree [of example_engine "[JObj [(''id'', JNum 1)], JObj [(''_id'', JNum 2)]]"
      "[(''a'', JObj [(''id'', JNum 1)]), (''b'', JObj [(''_id'', JNum 2)])]"]
  by (simp add: wrapped_def lookup_def)

subsection \<open>C4: totality\<close>

text \<open>
  As stated, C4 fails: for the payload \<^verbatim>\<open>null\<close> the test \<^verbatim>\<open>response.data.incidents\<close> throws a
  \<^verbatim>\<open>TypeError\<close>, and for an entry \<^verbatim>\<open>null\<close> the read \<^verbatim>\<open>incident.id\<close> does. The exception
  reaches the \<^verbatim>\<open>catch\<close> branch, which records it as the error of the poll.
\<close>

theorem normalize_null_counterexample:
  "normalizePayload example_engine JNull = Inl TypeError \<and>
   normalizePayload example_engine (JArr [JNull]) = Inl TypeError"
  by (simp add: normalizePayload_def incidentsData_def formattedIncidents_def formatIncident_def)

text \<open>
  C4 (amended). For every payload other than \<^verbatim>\<open>null\<close>, the list of raw entries is
  extracted without an exception, and when none of the entries is \<^verbatim>\<open>null\<close> normalization
  returns one record per entry, however malformed the entries are. A payload without
  entries (the empty array, the empty object, a wrapper around the empty array, a number,
  a boolean, the empty string) normalizes to the empty sequence.
\<close>

theorem normalize_total_on_non_null:
  "(\<not> nullish d \<longrightarrow>
      (\<exists>xs. incidentsData d = Inr xs \<and>
         ((\<forall>x\<in>set xs. \<not> nullish x) \<longrightarrow>
            (\<exists>rs. normalizePayload eng d = Inr rs \<and> length rs = length xs)))) \<and>
   normalizePayload eng (JArr []) = Inr [] \<and>
   normalizePayload eng (JObj []) = Inr [] \<and>
   normalizePayload eng (JObj [(''incidents'', JArr [])]) = Inr [] \<and>
   normalizePayload eng (JObj [(''data'', JArr [])]) = Inr [] \<and>
   normalizePayload eng (JObj [(''results'', JArr [])]) = Inr [] \<and>
   normalizePayload eng (JNum n) = Inr [] \<and>
   normalizePayload eng (JBool b) = Inr [] \<and>
   normalizePayload eng (JStr []) = Inr []"
proof -
  have "\<exists>xs. incidentsData d = Inr xs \<and>
         ((\<forall>x\<in>set xs. \<not> nullish x) \<longrightarrow>
            (\<exists>rs. normalizePayload eng d = Inr rs \<and> length rs = length xs))"
    if nn: "\<not> nullish d"
  proof -
    from incidentsData_total [OF nn] obtain xs where xs: "incidentsData d = Inr xs" ..
    have "\<exists>rs. normalizePayload eng d = Inr rs \<and> length rs = length xs"
      if "\<forall>x\<in>set xs. \<not> nullish x"
      using format_from_total [OF that, of eng 0]
      by (simp add: normalizePayload_def xs formattedIncidents_def)
    with xs show ?thesis by blast
  qed
  moreover have "normalizePayload eng (JObj []) = Inr []" "normalizePayload eng (JNum n) = Inr []"
    "normalizePayload eng (JBool b) = Inr []" "normalizePayload eng (JStr []) = Inr []"
    by (simp_all add: normalizePayload_def incidentsData_def wrapped_def lookup_def
        Object_values_def formattedIncidents_def)
  ultimately show ?thesis
    by (simp add: normalize_array normalize_wrapper formattedIncidents_def)
qed

theorem normalize_total_witness:
  "\<not> nullish (JObj [(''total'', JNum 1), (''page'', JStr ''x'')]) \<and>
   incidentsData (JObj [(''total'', JNum 1), (''page'', JStr ''x'')]) = Inr [JNum 1, JStr ''x''] \<and>
   \<not> nullish (JNum 1) \<and> \<not> nullish (JStr ''x'') \<and>
   (\<exists>rs. normalizePayload example_engine (JObj [(''total'', JNum 1), (''page'', JStr ''x'')]) = Inr rs
        \<and> length rs = length [JNum 1, JStr ''x''])"
  using normalize_total_on_non_null
    [of "JObj [(''total'', JNum 1), (''page'', JStr ''x'')]" example_engine 0 True]
  by (simp add: incidentsData_def wrapped_def lookup_def Object_values_def)

subsection \<open>C5: a failing poll\<close>

text \<open>
  C5. For every store state, when a poll fails (the request is rejected, or the payload
  makes normalization throw) the incident list, the selection set and the sort config are
  left as they were, and an error message is recorded: the error cell holds a populated
  value, and it holds the message of the rejection when that is a non-empty string and the
  response carries no message of its own. The witness is the run of the specification's
  example: a failing poll after a successful poll of eight incidents.
\<close>

theorem failed_poll_keeps_snapshot:
  assumes "poll_fails eng res"
  shows "incidents (fetchIncidents eng res st) = incidents st \<and>
         selectedIncidents (fetchIncidents eng res st) = selectedIncidents st \<and>
         sortConfig (fetchIncidents eng res st) = sortConfig st \<and>
         truthy (error (fetchIncidents eng res st)) \<and>
         (\<forall>m. res = Rejected JUndefined (JStr m) \<and> m \<noteq> []
              \<longrightarrow> error (fetchIncidents eng res st) = JStr m)"
proof (cases res)
  case (Rejected rm m)
  then show ?thesis
    using catch_branch_keeps [of rm m st]
    by (auto simp: fetchIncidents_def) (simp add: catch_branch_def js_or_def)
next
  case (Resolved d)
  with assms obtain e where "normalizePayload eng d = Inl e"
    by (auto simp: poll_fails_def split: sum.splits)
  then show ?thesis
    using catch_branch_keeps [of JUndefined "JStr (type_error_message eng)" st] Resolved
    by (cases e) (simp add: fetchIncidents_def)
qed

theorem failed_poll_witness:
  "poll_fails example_engine (Rejected JUndefined (JStr ''Network Error'')) \<and>
   length (incidents loaded_eight) = 8 \<and>
   incidents (fetchIncidents example_engine (Rejected JUndefined (JStr ''Network Error'')) loaded_eight)
     = incidents loaded_eight \<and>
   selectedIncidents (fetchIncidents example_engine (Rejected JUndefined (JStr ''Network Error'')) loaded_eight)
     = selectedIncidents loaded_eight \<and>
   sortConfig (fetchIncidents example_engine (Rejected JUndefined (JStr ''Network Error'')) loaded_eight)
     = sortConfig loaded_eight \<and>
   error (fetchIncidents example_engine (Rejected JUndefined (JStr ''Network Error'')) loaded_eight)
     = JStr ''Network Error''"
proof -
  have h: "poll_fails example_engine (Rejected JUndefined (JStr ''Network Error''))"
    by (simp add: poll_fails_def)
  have len: "length (incidents loaded_eight) = 8"
    using arg_cong [OF conjunct1 [OF loaded_eight_state], of length] by simp
  from failed_poll_keeps_snapshot [OF h, of loaded_eight] h len show ?thesis by simp
qed

subsection \<open>C6: unparsable timestamps in the sort\<close>

text \<open>
  As stated, C6 fails: in a list of an incident with a valid timestamp followed by one
  with an unparsable timestamp, the unparsable one stays last under both directions. It
  is neither moved before the valid one when sorting ascending, nor treated as the oldest
  consistently. (All elements of this list compare as equal, so every stable sort
  returns it unchanged.)
\<close>

theorem unparsable_timestamp_counterexample:
  "map (time_of example_engine) (incidents loaded_mixed) = [Some 1704067200000, None] \<and>
   sortedIncidents example_engine (by_timestamp Asc loaded_mixed) = incidents loaded_mixed \<and>
   sortedIncidents example_engine (by_timestamp Desc loaded_mixed) = incidents loaded_mixed"
  by (simp add: loaded_mixed_incidents time_of_examples sortedIncidents_by_timestamp
      js_sort_def compare_timestamp)

text \<open>
  C6 (amended). When sorting by timestamp, an incident whose timestamp is unparsable
  compares as equal to every incident, in both directions and on both sides: the
  comparator returns \<^verbatim>\<open>NaN\<close>, which the sort reads as 0. In a list where every incident but
  at most one is unparsable, the sorted view is the list in its stored order, under
  either direction.
\<close>

theorem unparsable_timestamp_ties:
  "(time_of eng x = None \<longrightarrow>
      compare_incidents eng \<lparr>key = Timestamp, direction = dir\<rparr> x b = None \<and>
      compare_incidents eng \<lparr>key = Timestamp, direction = dir\<rparr> b x = None) \<and>
   ((\<forall>a\<in>set (incidents st). a \<noteq> v \<longrightarrow> time_of eng a = None) \<longrightarrow>
      sortedIncidents eng (by_timestamp dir st) = incidents st)"
proof -
  have 1: "compare_incidents eng \<lparr>key = Timestamp, direction = dir\<rparr> x b = None \<and>
      compare_incidents eng \<lparr>key = Timestamp, direction = dir\<rparr> b x = None"
    if "time_of eng x = None"
    using that
    by (simp add: compare_incidents_def time_of_def date_minus_def Let_def split: option.splits)
  have 2: "sortedIncidents eng (by_timestamp dir st) = incidents st"
    if h: "\<forall>a\<in>set (incidents st). a \<noteq> v \<longrightarrow> time_of eng a = None"
  proof -
    have "sort_compare (compare_incidents eng \<lparr>key = Timestamp, direction = dir\<rparr>) a b = 0"
      if "a \<in> set (incidents st)" "b \<in> set (incidents st)" for a b
      using h that by (cases "a = v"; cases "b = v") (auto simp: compare_timestamp split: option.splits)
    then show ?thesis
      by (simp add: sortedIncidents_by_timestamp js_sort_all_ties)
  qed
  from 1 2 show ?thesis by blast
qed

theorem unparsable_timestamp_witness:
  "time_of example_engine (incidents loaded_mixed ! 1) = None \<and>
   compare_incidents example_engine \<lparr>key = Timestamp, direction = Asc\<rparr>
     (incidents loaded_mixed ! 1) (incidents loaded_mixed ! 0) = None \<and>
   compare_incidents example_engine \<lparr>key = Timestamp, direction = Asc\<rparr>
     (incidents loaded_mixed ! 0) (incidents loaded_mixed ! 1) = None \<and>
   length (incidents loaded_mixed) = 2 \<and>
   sortedIncidents example_engine (by_timestamp Asc loaded_mixed) = incidents loaded_mixed"
proof -
  have h1: "time_of example_engine (incidents loaded_mixed ! 1) = None"
    by (simp add: loaded_mixed_incidents time_of_examples)
  have h2: "\<forall>a\<in>set (incidents loaded_mixed).
       a \<noteq> incidents loaded_mixed ! 0 \<longrightarrow> time_of example_engine a = None"
    by (simp add: loaded_mixed_incidents time_of_examples)
  have len: "length (incidents loaded_mixed) = 2" by (simp add: loaded_mixed_incidents)
  from unparsable_timestamp_ties [of example_engine "incidents loaded_mixed ! 1" Asc
      "incidents loaded_mixed ! 0" loaded_mixed "incidents loaded_mixed ! 0"] h1 h2 len
  show ?thesis by blast
qed

subsection \<open>C7: descending is the reverse of ascending\<close>

text \<open>
  As stated, C7 fails: the two incidents of the mixed poll have different timestamp keys
  (a valid date and an unparsable string), yet the comparator returns \<^verbatim>\<open>NaN\<close> for them, the
  sort leaves them in their stored order under both directions, and the descending view is
  not the reverse of the ascending one.
\<close>

theorem timestamp_desc_is_rev_asc_counterexample:
  "map (time_of example_engine) (incidents loaded_mixed) = [Some 1704067200000, None] \<and>
   sortedIncidents example_engine (by_timestamp Desc loaded_mixed) = incidents loaded_mixed \<and>
   sortedIncidents example_engine (by_timestamp Asc loaded_mixed) = incidents loaded_mixed \<and>
   sortedIncidents example_engine (by_timestamp Desc loaded_mixed)
     \<noteq> rev (sortedIncidents example_engine (by_timestamp Asc loaded_mixed))"
  by (simp add: loaded_mixed_incidents time_of_examples sortedIncidents_by_timestamp
      js_sort_def compare_timestamp)

text \<open>
  C7 (amended). For every incident list in which every timestamp is parsable and no two
  incidents have equal timestamp keys (time values), the view sorted by timestamp
  descending is exactly the reverse of the view sorted by timestamp ascending.
\<close>

theorem timestamp_desc_is_rev_asc:
  assumes valid: "\<forall>a\<in>set (incidents st). time_of eng a \<noteq> None"
    and dist: "distinct (map (time_of eng) (incidents st))"
  shows "sortedIncidents eng (by_timestamp Desc st)
           = rev (sortedIncidents eng (by_timestamp Asc st))"
proof (rule desc_is_rev_asc_without_ties, intro allI impI)
  fix i j
  assume i: "i < length (incidents st)" and j: "j < length (incidents st)" and ne: "i \<noteq> j"
  have "incidents st ! i \<in> set (incidents st)" using i by simp
  with valid obtain ti where ti: "time_of eng (incidents st ! i) = Some ti" by auto
  have "incidents st ! j \<in> set (incidents st)" using j by simp
  with valid obtain tj where tj: "time_of eng (incidents st ! j) = Some tj" by auto
  have "map (time_of eng) (incidents st) ! i \<noteq> map (time_of eng) (incidents st) ! j"
    using dist i j ne by (simp add: nth_eq_iff_index_eq del: nth_map)
  then have "ti \<noteq> tj" using i j ti tj by simp
  then show "\<not> ties eng (incidents st ! i) (incidents st ! j)"
    by (simp add: ties_def compare_timestamp ti tj)
qed

theorem timestamp_desc_is_rev_asc_witness:
  "map (time_of example_engine) (incidents loaded_three)
     = [Some 1704153600000, Some 1704067200000, Some 1704240000000] \<and>
   distinct (map (time_of example_engine) (incidents loaded_three)) \<and>
   sortedIncidents example_engine (by_timestamp Desc loaded_three)
     = rev (sortedIncidents example_engine (by_timestamp Asc loaded_three)) \<and>
   map (\<lambda>a. lookup a ''id'') (sortedIncidents example_engine (by_timestamp Asc loaded_three))
     = [JNum 2, JNum 1, JNum 3]"
proof -
  have times: "map (time_of example_engine) (incidents loaded_three)
     = [Some 1704153600000, Some 1704067200000, Some 1704240000000]"
    by (simp add: loaded_three_incidents time_of_examples)
  have h1: "\<forall>a\<in>set (incidents loaded_three). time_of example_engine a \<noteq> None"
    by (simp add: loaded_three_incidents time_of_examples)
  have h2: "distinct (map (time_of example_engine) (incidents loaded_three))"
    by (simp add: times)
  have asc: "map (\<lambda>a. lookup a ''id'') (sortedIncidents example_engine (by_timestamp Asc loaded_three))
     = [JNum 2, JNum 1, JNum 3]"
    by (simp add: loaded_three_incidents sortedIncidents_by_timestamp js_sort_def
        compare_timestamp time_of_examples lookup_def)
  from timestamp_desc_is_rev_asc [OF h1 h2] times h2 asc show ?thesis by simp
qed

subsection \<open>C8: normalizing twice\<close>

text \<open>
  C8. For every raw entry, applying the field-resolution map a second time to the record
  it produced, with any values of the random id and the clock, yields that record
  unchanged; and so does normalizing the array of the records of a normalized payload.
\<close>

theorem renormalize_noop:
  "(formatIncident rnd now e = Inr r \<longrightarrow> formatIncident rnd' now' (JObj r) = Inr r) \<and>
   (normalizePayload eng d = Inr rs \<longrightarrow> normalizePayload eng' (JArr (map JObj rs)) = Inr rs)"
proof -
  have "normalizePayload eng' (JArr (map JObj rs)) = Inr rs" if "normalizePayload eng d = Inr rs"
  proof -
    from that obtain es where "format_from eng 0 es = Inr rs"
      by (auto simp: normalizePayload_def formattedIncidents_def split: sum.splits)
    then show ?thesis
      by (simp add: normalize_array formattedIncidents_def format_from_idem)
  qed
  then show ?thesis using formatIncident_idem by blast
qed

theorem renormalize_noop_witness:
  "formatIncident ''r0'' ''2025-01-01T00:00:00.000Z''
      (JObj [(''_id'', JNum 7), (''incident_type'', JNull), (''type'', JStr ''Email'')])
     = Inr [(''id'', JNum 7), (''timestamp'', JStr ''2025-01-01T00:00:00.000Z''),
            (''incident_type'', JNull), (''user_id'', JStr ''N/A''),
            (''platform'', JStr ''Unknown''), (''action'', JStr ''NOTIFY''),
            (''_id'', JNum 7), (''type'', JStr ''Email'')] \<and>
   formatIncident ''r9'' ''2025-06-01T00:00:00.000Z''
      (JObj [(''id'', JNum 7), (''timestamp'', JStr ''2025-01-01T00:00:00.000Z''),
            (''incident_type'', JNull), (''user_id'', JStr ''N/A''),
            (''platform'', JStr ''Unknown''), (''action'', JStr ''NOTIFY''),
            (''_id'', JNum 7), (''type'', JStr ''Email'')])
     = Inr [(''id'', JNum 7), (''timestamp'', JStr ''2025-01-01T00:00:00.000Z''),
            (''incident_type'', JNull), (''user_id'', JStr ''N/A''),
            (''platform'', JStr ''Unknown''), (''action'', JStr ''NOTIFY''),
            (''_id'', JNum 7), (''type'', JStr ''Email'')] \<and>
   normalizePayload example_engine two_ids_payload = Inr (incidents loaded_two) \<and>
   normalizePayload example_engine (JArr (map JObj (incidents loaded_two))) = Inr (incidents loaded_two)"
proof -
  let ?e = "JObj [(''_id'', JNum 7), (''incident_type'', JNull), (''type'', JStr ''Email'')]"
  let ?r = "[(''id'', JNum 7), (''timestamp'', JStr ''2025-01-01T00:00:00.000Z''),
            (''incident_type'', JNull), (''user_id'', JStr ''N/A''),
            (''platform'', JStr ''Unknown''), (''action'', JStr ''NOTIFY''),
            (''_id'', JNum 7), (''type'', JStr ''Email'')]"
  have h1: "formatIncident ''r0'' ''2025-01-01T00:00:00.000Z'' ?e = Inr ?r"
    by (simp add: formatIncident_def canonical_def js_or_def spread_def lookup_def)
  have h2: "normalizePayload example_engine two_ids_payload = Inr (incidents loaded_two)"
    by (simp add: loaded_two_incidents) (simp add: two_ids_payload_def eval_defs)
  from renormalize_noop [of "''r0''" "''2025-01-01T00:00:00.000Z''" ?e ?r
      "''r9''" "''2025-06-01T00:00:00.000Z''" example_engine two_ids_payload
      "incidents loaded_two" example_engine] h1 h2
  show ?thesis by blast
qed

subsection \<open>C9: select all\<close>

text \<open>
  As stated, C9 fails twice. From a partial selection (one of two listed incidents) two
  invocations of \<^verbatim>\<open>toggleSelectAll\<close> end with the empty selection, not the original one.
  And after a poll has replaced the list, a selection of one id that is no longer listed
  has the size of the one-element list, so \<^verbatim>\<open>toggleSelectAll\<close> clears it although the
  listed incident is not selected.
\<close>

theorem toggleSelectAll_counterexample:
  "selectedIncidents selected_one = {|JNum 1|} \<and>
   incidents (toggleSelectAll (toggleSelectAll selected_one)) = incidents selected_one \<and>
   selectedIncidents (toggleSelectAll (toggleSelectAll selected_one)) = {||} \<and>
   listed_ids replaced_list = [JNum 3] \<and>
   selectedIncidents replaced_list = {|JNum 1|} \<and>
   selectedIncidents (toggleSelectAll replaced_list) = {||}"
proof -
  have one: "toggleSelectAll selected_one
      = selected_one\<lparr>selectedIncidents := {|JNum 1, JNum 2|}\<rparr>"
    by (simp add: toggleSelectAll_def selected_one_state loaded_two_incidents listed_ids_def
        lookup_def fcard_finsert_if fcard_fempty)
  have two: "toggleSelectAll (selected_one\<lparr>selectedIncidents := {|JNum 1, JNum 2|}\<rparr>)
      = selected_one\<lparr>selectedIncidents := {||}\<rparr>"
    by (simp add: toggleSelectAll_def selected_one_state loaded_two_incidents
        fcard_finsert_if fcard_fempty)
  have three: "selectedIncidents (toggleSelectAll replaced_list) = {||}"
    by (simp add: toggleSelectAll_def replaced_list_state fcard_finsert_if fcard_fempty)
  show ?thesis
    by (simp add: one two three selected_one_state replaced_list_state)
qed

text \<open>
  C9 (amended). For every store state whose listed ids are distinct and whose selection
  holds only listed ids, \<^verbatim>\<open>toggleSelectAll\<close> selects all listed ids if not all of them are
  selected and otherwise clears the selection, and leaves the list as it is; invoking it
  twice returns the selection to its original value exactly when that value was empty or
  the set of all listed ids, and from any other selection two invocations end with the
  empty selection. The variant of \<^verbatim>\<open>src/unnamed/part_000\<close> computes the same store.
\<close>

theorem toggleSelectAll_on_listed_selection:
  assumes d: "distinct (listed_ids st)"
    and sub: "selectedIncidents st |\<subseteq>| fset_of_list (listed_ids st)"
  shows "selectedIncidents (toggleSelectAll st)
           = (if fset_of_list (listed_ids st) |\<subseteq>| selectedIncidents st then {||}
              else fset_of_list (listed_ids st)) \<and>
         incidents (toggleSelectAll st) = incidents st \<and>
         (selectedIncidents (toggleSelectAll (toggleSelectAll st)) = selectedIncidents st)
           = (selectedIncidents st = {||} \<or> selectedIncidents st = fset_of_list (listed_ids st)) \<and>
         (selectedIncidents st \<noteq> {||} \<and> selectedIncidents st \<noteq> fset_of_list (listed_ids st)
            \<longrightarrow> selectedIncidents (toggleSelectAll (toggleSelectAll st)) = {||}) \<and>
         toggleSelectAll_part_000 st = toggleSelectAll st"
proof -
  define S where "S = selectedIncidents st"
  define A where "A = fset_of_list (listed_ids st)"
  define n where "n = length (incidents st)"
  have cardA: "fcard A = n"
    using d by (simp add: A_def n_def fcard_fset_of_list listed_ids_length)
  have sub': "S |\<subseteq>| A" using sub by (simp add: S_def A_def)
  have full: "(fcard S = n) = (S = A)"
  proof
    assume "fcard S = n"
    then have "fcard A \<le> fcard S" by (simp add: cardA)
    with sub' show "S = A" by (rule fcard_seteq)
  next
    assume "S = A" then show "fcard S = n" by (simp add: cardA)
  qed
  have all_sel: "(A |\<subseteq>| S) = (S = A)"
    using sub' by blast
  have empty: "A = {||}" if "n = 0"
    using that cardA by simp
  have one: "selectedIncidents (toggleSelectAll st) = (if S = A then {||} else A)"
  proof (cases "S = A")
    case True
    show ?thesis
    proof (cases "n = 0")
      case True
      with empty \<open>S = A\<close> show ?thesis
        by (simp add: toggleSelectAll_def A_def [symmetric])
    next
      case False
      with \<open>S = A\<close> full show ?thesis
        by (simp add: toggleSelectAll_def S_def [symmetric] n_def [symmetric])
    qed
  next
    case False
    with full show ?thesis
      by (simp add: toggleSelectAll_def S_def [symmetric] n_def [symmetric] A_def [symmetric])
  qed
  have inc: "incidents (toggleSelectAll st) = incidents st"
    by (simp add: toggleSelectAll_def)
  have ids: "listed_ids (toggleSelectAll st) = listed_ids st"
    by (simp add: toggleSelectAll_def)
  have two: "selectedIncidents (toggleSelectAll (toggleSelectAll st))
       = (if S = A then A else {||})"
  proof (cases "S = A")
    case True
    then have "selectedIncidents (toggleSelectAll st) = {||}" by (simp add: one)
    then show ?thesis
      using True
      by (simp add: toggleSelectAll_def [of "toggleSelectAll st"] inc ids A_def [symmetric]
            fcard_fempty)
  next
    case False
    then have "selectedIncidents (toggleSelectAll st) = A" by (simp add: one)
    moreover have "n > 0"
    proof (rule ccontr)
      assume "\<not> n > 0"
      then have "A = {||}" using empty by simp
      with sub' have "S = A" by simp
      with False show False by contradiction
    qed
    ultimately show ?thesis
      using False
      by (simp add: toggleSelectAll_def [of "toggleSelectAll st"] inc ids cardA
            n_def [symmetric])
  qed
  have c1: "selectedIncidents (toggleSelectAll st) = (if A |\<subseteq>| S then {||} else A)"
    by (simp only: one all_sel)
  have c3: "(selectedIncidents (toggleSelectAll (toggleSelectAll st)) = S) = (S = {||} \<or> S = A)"
    by (cases "S = A") (auto simp: two)
  have c4: "S \<noteq> {||} \<and> S \<noteq> A
       \<longrightarrow> selectedIncidents (toggleSelectAll (toggleSelectAll st)) = {||}"
    by (simp add: two)
  from c1 inc c3 c4 toggleSelectAll_variants_agree [of st] show ?thesis
    unfolding S_def A_def by (intro conjI)
qed

theorem toggleSelectAll_witness:
  "distinct (listed_ids loaded_two) \<and>
   selectedIncidents loaded_two |\<subseteq>| fset_of_list (listed_ids loaded_two) \<and>
   selectedIncidents loaded_two = {||} \<and>
   selectedIncidents (toggleSelectAll loaded_two) = {|JNum 1, JNum 2|} \<and>
   selectedIncidents (toggleSelectAll (toggleSelectAll loaded_two)) = selectedIncidents loaded_two"
proof -
  have h1: "distinct (listed_ids loaded_two)" by (simp add: loaded_two_ids)
  have h2: "selectedIncidents loaded_two |\<subseteq>| fset_of_list (listed_ids loaded_two)"
    by (simp add: loaded_two_selection)
  from toggleSelectAll_on_listed_selection [OF h1 h2] h1 h2 show ?thesis
    by (simp add: loaded_two_selection loaded_two_ids)
qed

subsection \<open>C10: toggling one id\<close>

text \<open>
  C10. For every selection set and every incident id, toggling that id changes the
  membership of exactly that id, leaves the membership of every other id and the incident
  list unchanged, and toggling the same id twice returns the store to its original value.
\<close>

theorem toggle_one_involution:
  "(\<forall>j. j \<noteq> i \<longrightarrow>
      (j |\<in>| selectedIncidents (toggleIncidentSelection i st)) = (j |\<in>| selectedIncidents st)) \<and>
   (i |\<in>| selectedIncidents (toggleIncidentSelection i st)) = (i |\<notin>| selectedIncidents st) \<and>
   incidents (toggleIncidentSelection i st) = incidents st \<and>
   toggleIncidentSelection i (toggleIncidentSelection i st) = st"
proof -
  have "finsert i (selectedIncidents st |-| {|i|}) = selectedIncidents st"
    if "i |\<in>| selectedIncidents st"
    using that by auto
  moreover have "finsert i (selectedIncidents st) |-| {|i|} = selectedIncidents st"
    if "i |\<notin>| selectedIncidents st"
    using that by auto
  ultimately show ?thesis
    by (simp add: toggleIncidentSelection_def Let_def)
qed

theorem toggle_one_involution_witness:
  "JNum 1 \<noteq> JNum 2 \<and>
   (JNum 1 |\<in>| selectedIncidents (toggleIncidentSelection (JNum 2) selected_one))
     = (JNum 1 |\<in>| selectedIncidents selected_one) \<and>
   JNum 2 |\<notin>| selectedIncidents selected_one \<and>
   JNum 2 |\<in>| selectedIncidents (toggleIncidentSelection (JNum 2) selected_one) \<and>
   toggleIncidentSelection (JNum 2) (toggleIncidentSelection (JNum 2) selected_one) = selected_one"
proof -
  have h: "JNum 1 \<noteq> JNum 2" by simp
  have s: "JNum 2 |\<notin>| selectedIncidents selected_one" by (simp add: selected_one_state)
  from toggle_one_involution [of "JNum 2" selected_one] h s show ?thesis by blast
qed

end
